theory Spec2Isabelle
  imports Main "HOL-Library.Word"
begin

section \<open>Strings, bytes and property values\<close>

text \<open>
  A JavaScript string is represented by its UTF-8 encoding, one \<^typ>\<open>char\<close> per byte.
  The operations the pipeline uses (concatenation, equality, \<^verbatim>\<open>startsWith\<close> with an
  ASCII prefix, \<^verbatim>\<open>split\<close> and \<^verbatim>\<open>join\<close> at the ASCII character \<^verbatim>\<open>/\<close>) act on
  that encoding exactly as they act on the string, since the byte of \<^verbatim>\<open>/\<close> occurs in
  UTF-8 only as that character.
\<close>

type_synonym byte = "8 word"

datatype jsvalue = JNull | JString string | JNumber int | JBool bool

type_synonym properties = "string \<Rightarrow> jsvalue option"

datatype Anonymity = Anonymous | Pseudonymous

text \<open>The only failure of the pipeline: \<^verbatim>\<open>window.crypto.subtle.digest\<close> throws or rejects.\<close>

datatype error = DigestFailure

subsection \<open>Library operations of the language\<close>

text \<open>\<^verbatim>\<open>String.prototype.split\<close> with a one-character separator: never empty, keeps empty fields.\<close>

fun js_split :: "char \<Rightarrow> string \<Rightarrow> string list" where
  "js_split sep [] = [[]]"
| "js_split sep (c # cs) =
     (if c = sep then [] # js_split sep cs
      else (case js_split sep cs of [] \<Rightarrow> [[c]] | x # xs \<Rightarrow> (c # x) # xs))"

text \<open>\<^verbatim>\<open>Array.prototype.join\<close>.\<close>

fun js_join :: "string \<Rightarrow> string list \<Rightarrow> string" where
  "js_join sep [] = []"
| "js_join sep [x] = x"
| "js_join sep (x # y # ys) = x @ sep @ js_join sep (y # ys)"

definition startsWith :: "string \<Rightarrow> string \<Rightarrow> bool" where
  "startsWith s p = (take (length p) s = p)"

text \<open>\<^verbatim>\<open>new TextEncoder().encode(input)\<close>: the UTF-8 bytes of the string.\<close>

definition encode :: "string \<Rightarrow> byte list" where
  "encode input = map (\<lambda>c. of_nat (of_char c)) input"

definition digit16 :: "nat \<Rightarrow> char" where
  "digit16 n = ''0123456789abcdef'' ! (n mod 16)"

text \<open>\<^verbatim>\<open>Number.prototype.toString(16)\<close> on a natural number.\<close>

function toString16 :: "nat \<Rightarrow> string" where
  "toString16 n = (if n < 16 then [digit16 n] else toString16 (n div 16) @ [digit16 n])"
  by pat_completeness auto
termination
  by (relation "measure id") auto

declare toString16.simps [simp del]

text \<open>\<^verbatim>\<open>String.prototype.padStart\<close> with a one-character filler.\<close>

definition padStart :: "string \<Rightarrow> nat \<Rightarrow> char \<Rightarrow> string" where
  "padStart s n c = replicate (n - length s) c @ s"

section \<open>Hashing and the redaction of the current location\<close>

text \<open>
  The browser's SHA-256 (\<^verbatim>\<open>window.crypto.subtle.digest\<close>) is a parameter of the model:
  a function from the bytes to hash to the digest, \<open>None\<close> when the call throws or its
  promise rejects (the interface is absent outside secure contexts).
\<close>

type_synonym digest = "byte list \<Rightarrow> byte list option"

definition hashHex :: "digest \<Rightarrow> string \<Rightarrow> error + string" where
  "hashHex digest input =
     (let buf = encode input in
      case digest buf of
        None \<Rightarrow> Inl DigestFailure
      | Some digestBuf \<Rightarrow>
          Inr (js_join [] (map (\<lambda>b. padStart (toString16 (unat b)) 2 CHR ''0'') digestBuf)))"

definition knownScreens :: "string list" where
  "knownScreens =
     [''register'', ''login'', ''forgot_password'', ''soft_logout'', ''new'', ''settings'',
      ''welcome'', ''home'', ''start'', ''directory'', ''start_sso'', ''start_cas'', ''groups'',
      ''complete_security'', ''post_registration'', ''room'', ''user'', ''group'']"

text \<open>
  The loop of \<^verbatim>\<open>getRedactedCurrentLocation\<close> over \<^verbatim>\<open>parts\<close>: a rejected
  \<^verbatim>\<open>hashHex\<close> leaves the loop and rejects the whole call.
\<close>

fun redactParts :: "digest \<Rightarrow> Anonymity \<Rightarrow> string list \<Rightarrow> error + string list" where
  "redactParts digest anonymity [] = Inr []"
| "redactParts digest anonymity (p # ps) =
     (case (if anonymity = Anonymous then Inr ''<redacted>'' else hashHex digest p) of
        Inl e \<Rightarrow> Inl e
      | Inr r \<Rightarrow>
          (case redactParts digest anonymity ps of
             Inl e \<Rightarrow> Inl e
           | Inr rs \<Rightarrow> Inr (r # rs)))"

text \<open>
  The destructuring \<^verbatim>\<open>let [_, screen, ...parts] = hash.split("/")\<close>: an element the
  array does not have is \<^verbatim>\<open>undefined\<close> (\<open>None\<close>).
\<close>

fun destructure :: "string list \<Rightarrow> string option \<times> string option \<times> string list" where
  "destructure [] = (None, None, [])"
| "destructure [u] = (Some u, None, [])"
| "destructure (u # screen # parts) = (Some u, Some screen, parts)"

text \<open>A value inside a template literal: \<^verbatim>\<open>undefined\<close> prints as that word.\<close>

fun template :: "string option \<Rightarrow> string" where
  "template None = ''undefined''"
| "template (Some s) = s"

text \<open>
  Lines 54 to 64 of \<^verbatim>\<open>getRedactedCurrentLocation\<close>: the redacted fragment
  \<^verbatim>\<open>hashStr\<close>.
\<close>

definition hashStr :: "digest \<Rightarrow> string \<Rightarrow> Anonymity \<Rightarrow> error + string" where
  "hashStr digest hash anonymity =
     (case destructure (js_split CHR ''/'' hash) of
        (u, screen, parts) \<Rightarrow>
          (let screen = (case screen of
                           None \<Rightarrow> ''<redacted_screen_name>''
                         | Some s \<Rightarrow> if s \<in> set knownScreens then s else ''<redacted_screen_name>'')
           in case redactParts digest anonymity parts of
                Inl e \<Rightarrow> Inl e
              | Inr parts \<Rightarrow> Inr (template u @ ''/'' @ screen @ ''/'' @ js_join ''/'' parts)))"

definition getRedactedCurrentLocation ::
  "digest \<Rightarrow> string \<Rightarrow> string \<Rightarrow> string \<Rightarrow> Anonymity \<Rightarrow> error + string" where
  "getRedactedCurrentLocation digest origin hash pathname anonymity =
     (let pathname = (if startsWith origin ''file://'' then ''/<redacted_file_scheme_url>/''
                      else pathname)
      in case hashStr digest hash anonymity of
           Inl e \<Rightarrow> Inl e
         | Inr hs \<Rightarrow> Inr (origin @ pathname @ hs))"

section \<open>The analytics pipeline\<close>

subsection \<open>State, browser and sink\<close>

text \<open>
  The fields of the class \<^verbatim>\<open>PosthogAnalytics\<close>. Its fourth field,
  \<^verbatim>\<open>posthog\<close>, is the sink; the calls it receives are logged in the
  configuration below.
\<close>

record PosthogAnalytics =
  onlyTrackAnonymousEvents :: bool
  initialised :: bool
  redactedCurrentLocation :: "string option"

text \<open>\<^verbatim>\<open>window.location\<close>, \<^verbatim>\<open>SdkConfig.get()["posthog"]\<close> and \<^verbatim>\<open>navigator.doNotTrack\<close>:
  what a method reads from the browser at the moment it runs.\<close>

record location =
  location_origin :: string
  location_hash :: string
  location_pathname :: string

record posthogConfig =
  projectApiKey :: string
  apiHost :: string

record browser =
  navigator_doNotTrack :: "string option"
  sdkConfig_posthog :: "posthogConfig option"
  window_location :: location

record posthogOptions =
  api_host :: string
  autocapture :: bool
  mask_all_text :: bool
  mask_all_element_attributes :: bool

text \<open>
  A call the sink receives. \<^verbatim>\<open>init\<close> (which sends the first pageview at once) and
  \<^verbatim>\<open>capture\<close> invoke the hook \<^verbatim>\<open>sanitize_properties\<close> synchronously; the hook is
  \<^verbatim>\<open>sanitizeProperties\<close> bound to the pipeline, so the call is logged with the fields
  of the pipeline at that moment: they are what the hook reads.
\<close>

datatype posthogCall =
    PosthogInit string posthogOptions PosthogAnalytics
  | PosthogCapture string properties PosthogAnalytics
  | PosthogIdentify string

definition sanitizeProperties :: "PosthogAnalytics \<Rightarrow> properties \<Rightarrow> string \<Rightarrow> properties" where
  "sanitizeProperties this properties u =
     (let properties = properties(''$current_url'' \<mapsto>
            (case redactedCurrentLocation this of None \<Rightarrow> JNull | Some l \<Rightarrow> JString l))
      in if onlyTrackAnonymousEvents this
         then properties(''$referrer'' \<mapsto> JNull, ''$referring_domain'' \<mapsto> JNull,
                ''$initial_referrer'' \<mapsto> JNull, ''$initial_referring_domain'' \<mapsto> JNull,
                ''$device_id'' \<mapsto> JNull)
         else properties)"

subsection \<open>Asynchronous methods\<close>

text \<open>
  The pipeline runs on one thread; an \<^verbatim>\<open>async\<close> method runs until its first
  \<^verbatim>\<open>await\<close>, is suspended there, and is resumed later, after any number of steps of
  other calls; suspended, it is a value of type \<open>pending\<close>. \<^verbatim>\<open>hashHex\<close> and
  \<^verbatim>\<open>getRedactedCurrentLocation\<close> read nothing but their arguments, so the value
  their promise settles with is fixed when they are called and is kept in that value;
  when it settles is not.

  \<^item> \<open>AwaitRedacted r k\<close>: \<^verbatim>\<open>updateRedactedCurrentLocation\<close> at its \<^verbatim>\<open>await\<close>, the
    redaction settling with \<open>r\<close>; \<open>k\<close> is what its caller does once it returns.
  \<^item> \<open>AwaitUpdate k\<close>: \<^verbatim>\<open>capture\<close> or \<^verbatim>\<open>init\<close> at
    \<^verbatim>\<open>await this.updateRedactedCurrentLocation()\<close>, the update done.
  \<^item> \<open>AwaitRoomHash r eventName properties\<close>: \<^verbatim>\<open>trackRoomEvent\<close> at
    \<^verbatim>\<open>await hashHex(roomId)\<close>.
  \<^item> \<open>AwaitIdentify r\<close>: \<^verbatim>\<open>identifyUser\<close> at \<^verbatim>\<open>await hashHex(userId)\<close>.
\<close>

datatype continuation = ThenCapture string properties | ThenInit posthogConfig

datatype pending =
    AwaitRedacted "error + string" continuation
  | AwaitUpdate continuation
  | AwaitRoomHash "error + string" string properties
  | AwaitIdentify "error + string"

text \<open>
  Nothing in the class catches an error. A rejected \<^verbatim>\<open>await\<close> rejects the promise of
  the method it stands in: the promise the caller holds (\<open>ToCaller\<close>), or, for
  \<^verbatim>\<open>capture\<close>, a promise nobody awaits (\<open>Unhandled\<close>), since the three
  \<^verbatim>\<open>track\<close> methods call it without \<^verbatim>\<open>await\<close>.
\<close>

datatype rejection = ToCaller error | Unhandled error

record pipeline =
  analytics :: PosthogAnalytics
  posthog :: "posthogCall list"
  suspended :: "(nat \<times> pending) list"
  nextId :: nat
  rejections :: "(nat \<times> rejection) list"

definition initial :: pipeline where
  "initial =
     \<lparr>analytics = \<lparr>onlyTrackAnonymousEvents = False, initialised = False,
                    redactedCurrentLocation = None\<rparr>,
      posthog = [], suspended = [], nextId = 0, rejections = []\<rparr>"

definition suspend :: "nat \<Rightarrow> pending \<Rightarrow> pipeline \<Rightarrow> pipeline" where
  "suspend tid t c = c\<lparr>suspended := suspended c @ [(tid, t)]\<rparr>"

definition reject :: "nat \<Rightarrow> rejection \<Rightarrow> pipeline \<Rightarrow> pipeline" where
  "reject tid r c = c\<lparr>rejections := rejections c @ [(tid, r)]\<rparr>"

text \<open>
  \<^verbatim>\<open>updateRedactedCurrentLocation\<close> up to its \<^verbatim>\<open>await\<close>. It has no parameter: the
  tier of the redaction is the flag of the pipeline. \<open>currentRedaction\<close> is the call of
  \<^verbatim>\<open>getRedactedCurrentLocation\<close> it makes.
\<close>

definition currentRedaction :: "digest \<Rightarrow> browser \<Rightarrow> pipeline \<Rightarrow> error + string" where
  "currentRedaction digest w c =
     (let l = window_location w in
      getRedactedCurrentLocation digest (location_origin l) (location_hash l)
        (location_pathname l)
        (if onlyTrackAnonymousEvents (analytics c) then Anonymous else Pseudonymous))"

definition updateRedactedCurrentLocation ::
  "digest \<Rightarrow> browser \<Rightarrow> nat \<Rightarrow> continuation \<Rightarrow> pipeline \<Rightarrow> pipeline" where
  "updateRedactedCurrentLocation digest w tid k c =
     suspend tid (AwaitRedacted (currentRedaction digest w c) k) c"

text \<open>
  \<^verbatim>\<open>capture\<close> passes its \<open>anonymity\<close> on to \<^verbatim>\<open>updateRedactedCurrentLocation\<close>, which
  takes no argument: the value is dropped.
\<close>

definition capture ::
  "digest \<Rightarrow> browser \<Rightarrow> nat \<Rightarrow> string \<Rightarrow> properties \<Rightarrow> Anonymity option \<Rightarrow> pipeline \<Rightarrow> pipeline" where
  "capture digest w tid eventName properties anonymity c =
     (if \<not> initialised (analytics c) then c
      else updateRedactedCurrentLocation digest w tid (ThenCapture eventName properties) c)"

text \<open>\<^verbatim>\<open>Anonymity.Pseudonyomous\<close> is no member of the enumeration: it evaluates to
  \<^verbatim>\<open>undefined\<close>.\<close>

definition trackPseudonymousEvent ::
  "digest \<Rightarrow> browser \<Rightarrow> nat \<Rightarrow> string \<Rightarrow> properties \<Rightarrow> pipeline \<Rightarrow> pipeline" where
  "trackPseudonymousEvent digest w tid eventName properties c =
     (if onlyTrackAnonymousEvents (analytics c) then c
      else capture digest w tid eventName properties None c)"

definition trackAnonymousEvent ::
  "digest \<Rightarrow> browser \<Rightarrow> nat \<Rightarrow> string \<Rightarrow> properties \<Rightarrow> pipeline \<Rightarrow> pipeline" where
  "trackAnonymousEvent digest w tid eventName properties c =
     capture digest w tid eventName properties (Some Anonymous) c"

text \<open>An empty \<open>roomId\<close> is falsy: no hash is awaited and the method goes on at once.\<close>

definition trackRoomEvent ::
  "digest \<Rightarrow> browser \<Rightarrow> nat \<Rightarrow> string \<Rightarrow> string \<Rightarrow> properties \<Rightarrow> pipeline \<Rightarrow> pipeline" where
  "trackRoomEvent digest w tid eventName roomId properties c =
     (if roomId \<noteq> []
      then suspend tid (AwaitRoomHash (hashHex digest roomId) eventName properties) c
      else trackPseudonymousEvent digest w tid eventName
             (properties(''hashedRoomId'' \<mapsto> JNull)) c)"

definition identifyUser :: "digest \<Rightarrow> nat \<Rightarrow> string \<Rightarrow> pipeline \<Rightarrow> pipeline" where
  "identifyUser digest tid userId c =
     (if onlyTrackAnonymousEvents (analytics c) then c
      else suspend tid (AwaitIdentify (hashHex digest userId)) c)"

definition isInitialised :: "pipeline \<Rightarrow> bool" where
  "isInitialised c = initialised (analytics c)"

definition setOnlyTrackAnonymousEvents :: "bool \<Rightarrow> pipeline \<Rightarrow> pipeline" where
  "setOnlyTrackAnonymousEvents enabled c =
     c\<lparr>analytics := (analytics c)\<lparr>onlyTrackAnonymousEvents := enabled\<rparr>\<rparr>"

definition init :: "digest \<Rightarrow> browser \<Rightarrow> nat \<Rightarrow> bool \<Rightarrow> pipeline \<Rightarrow> pipeline" where
  "init digest w tid flag c =
     (if navigator_doNotTrack w = Some ''1''
      then c\<lparr>analytics := (analytics c)\<lparr>initialised := False\<rparr>\<rparr>
      else
        (let c = c\<lparr>analytics := (analytics c)\<lparr>onlyTrackAnonymousEvents := flag\<rparr>\<rparr> in
         case sdkConfig_posthog w of
           None \<Rightarrow> c
         | Some cfg \<Rightarrow> updateRedactedCurrentLocation digest w tid (ThenInit cfg) c))"

text \<open>What a suspended method does when it is resumed, up to its next \<^verbatim>\<open>await\<close> or its end.\<close>

fun resume :: "digest \<Rightarrow> browser \<Rightarrow> nat \<Rightarrow> pending \<Rightarrow> pipeline \<Rightarrow> pipeline" where
  "resume digest w tid (AwaitRedacted (Inl e) (ThenCapture eventName properties)) c =
     reject tid (Unhandled e) c"
| "resume digest w tid (AwaitRedacted (Inl e) (ThenInit cfg)) c =
     reject tid (ToCaller e) c"
| "resume digest w tid (AwaitRedacted (Inr l) k) c =
     suspend tid (AwaitUpdate k)
       (c\<lparr>analytics := (analytics c)\<lparr>redactedCurrentLocation := Some l\<rparr>\<rparr>)"
| "resume digest w tid (AwaitUpdate (ThenCapture eventName properties)) c =
     c\<lparr>posthog := posthog c @ [PosthogCapture eventName properties (analytics c)]\<rparr>"
| "resume digest w tid (AwaitUpdate (ThenInit cfg)) c =
     (let c = c\<lparr>posthog := posthog c @
                  [PosthogInit (projectApiKey cfg)
                     \<lparr>api_host = apiHost cfg, autocapture = False, mask_all_text = True,
                      mask_all_element_attributes = True\<rparr>
                     (analytics c)]\<rparr>
      in c\<lparr>analytics := (analytics c)\<lparr>initialised := True\<rparr>\<rparr>)"
| "resume digest w tid (AwaitRoomHash (Inl e) eventName properties) c =
     reject tid (ToCaller e) c"
| "resume digest w tid (AwaitRoomHash (Inr h) eventName properties) c =
     trackPseudonymousEvent digest w tid eventName
       (properties(''hashedRoomId'' \<mapsto> JString h)) c"
| "resume digest w tid (AwaitIdentify (Inl e)) c = reject tid (ToCaller e) c"
| "resume digest w tid (AwaitIdentify (Inr h)) c =
     c\<lparr>posthog := posthog c @ [PosthogIdentify h]\<rparr>"

subsection \<open>Steps and runs\<close>

datatype call =
    Init bool
  | IdentifyUser string
  | SetOnlyTrackAnonymousEvents bool
  | TrackPseudonymousEvent string properties
  | TrackAnonymousEvent string properties
  | TrackRoomEvent string string properties

fun invoke :: "digest \<Rightarrow> browser \<Rightarrow> nat \<Rightarrow> call \<Rightarrow> pipeline \<Rightarrow> pipeline" where
  "invoke digest w tid (Init flag) c = init digest w tid flag c"
| "invoke digest w tid (IdentifyUser userId) c = identifyUser digest tid userId c"
| "invoke digest w tid (SetOnlyTrackAnonymousEvents enabled) c =
     setOnlyTrackAnonymousEvents enabled c"
| "invoke digest w tid (TrackPseudonymousEvent eventName properties) c =
     trackPseudonymousEvent digest w tid eventName properties c"
| "invoke digest w tid (TrackAnonymousEvent eventName properties) c =
     trackAnonymousEvent digest w tid eventName properties c"
| "invoke digest w tid (TrackRoomEvent eventName roomId properties) c =
     trackRoomEvent digest w tid eventName roomId properties c"

text \<open>
  One step of the pipeline, in the browser state \<open>w\<close> of that moment: some caller
  invokes a method, which runs to its first \<^verbatim>\<open>await\<close> under a fresh number, or
  the method suspended under the number \<open>tid\<close> is resumed (nothing happens when
  there is none).
\<close>

datatype action = Call call | Resume nat

fun step :: "digest \<Rightarrow> browser \<Rightarrow> action \<Rightarrow> pipeline \<Rightarrow> pipeline" where
  "step digest w (Call m) c = invoke digest w (nextId c) m (c\<lparr>nextId := Suc (nextId c)\<rparr>)"
| "step digest w (Resume tid) c =
     (case map_of (suspended c) tid of
        None \<Rightarrow> c
      | Some t \<Rightarrow> resume digest w tid t (c\<lparr>suspended := filter (\<lambda>(i, _). i \<noteq> tid) (suspended c)\<rparr>))"

text \<open>A run: any interleaving of calls and resumptions, each in the browser state of its moment.\<close>

fun run :: "digest \<Rightarrow> (browser \<times> action) list \<Rightarrow> pipeline \<Rightarrow> pipeline" where
  "run digest [] c = c"
| "run digest ((w, a) # rest) c = run digest rest (step digest w a c)"

text \<open>
  A call awaited with nothing else interleaved: the method is invoked and is resumed
  until it has ended (three resumptions are the longest path, that of
  \<^verbatim>\<open>trackRoomEvent\<close>; resuming a method that has ended does nothing).
\<close>

definition awaited :: "digest \<Rightarrow> browser \<Rightarrow> call \<Rightarrow> pipeline \<Rightarrow> pipeline" where
  "awaited digest w m c =
     run digest [(w, Call m), (w, Resume (nextId c)), (w, Resume (nextId c)),
                 (w, Resume (nextId c))] c"

subsection \<open>Notions the properties are stated with\<close>

text \<open>The characters of a hex string.\<close>

definition hexDigits :: "char set" where
  "hexDigits = set ''0123456789abcdef''"

text \<open>Every suspended method carries a number that has been handed out already.\<close>

definition wellformed :: "pipeline \<Rightarrow> bool" where
  "wellformed c = (\<forall>(i, t)\<in>set (suspended c). i < nextId c)"








subsection \<open>Sample inputs\<close>

text \<open>A browser without \<^verbatim>\<open>crypto.subtle\<close> (a page outside a secure context): every digest fails.\<close>

definition noDigest :: digest where
  "noDigest = (\<lambda>buf. None)"

text \<open>A stand-in for a digest that succeeds, short enough to read in a result.\<close>

definition constDigest :: digest where
  "constDigest = (\<lambda>buf. Some [0x0f, 0xa0])"

definition elementWeb :: browser where
  "elementWeb =
     \<lparr>navigator_doNotTrack = None,
      sdkConfig_posthog = Some \<lparr>projectApiKey = ''key'', apiHost = ''https://posthog.example.org''\<rparr>,
      window_location =
        \<lparr>location_origin = ''https://app.element.io'', location_hash = ''#/room/!abc:example.org'',
         location_pathname = ''/''\<rparr>\<rparr>"

definition elementWebDoNotTrack :: browser where
  "elementWebDoNotTrack = elementWeb\<lparr>navigator_doNotTrack := Some ''1''\<rparr>"

text \<open>The pipeline of a page outside a secure context, initialised for anonymous events
  only, after the user has allowed pseudonymous tracking.\<close>

definition insecurePage :: pipeline where
  "insecurePage =
     run noDigest
       [(elementWeb, Call (Init True)), (elementWeb, Resume 0), (elementWeb, Resume 0),
        (elementWeb, Call (SetOnlyTrackAnonymousEvents False))] initial"



section \<open>Properties\<close>

subsection \<open>Splitting and joining\<close>

lemma js_split_nonempty: "js_split sep s \<noteq> []"
  by (induction s) (auto split: list.splits)

lemma js_split_append:
  "sep \<notin> set a \<Longrightarrow> js_split sep (a @ sep # b) = a # js_split sep b"
  by (induction a) (auto split: list.splits)

lemma js_split_fields: "x \<in> set (js_split sep s) \<Longrightarrow> sep \<notin> set x"
proof (induction s arbitrary: x)
  case Nil
  then show ?case by simp
next
  case (Cons c cs)
  then show ?case
    by (cases "js_split sep cs") (auto split: if_splits)
qed

subsection \<open>The digest in hex\<close>

lemma digit16_hex: "digit16 n \<in> hexDigits"
proof -
  have "n mod 16 < length ''0123456789abcdef''"
    by simp
  then show ?thesis
    unfolding digit16_def hexDigits_def by (rule nth_mem)
qed

lemma toString16_hex: "set (toString16 n) \<subseteq> hexDigits"
proof (induction n rule: toString16.induct)
  case (1 n)
  show ?case
  proof (cases "n < 16")
    case True
    then show ?thesis
      using digit16_hex [of n] by (subst toString16.simps) simp
  next
    case False
    with 1 show ?thesis
      using digit16_hex [of n] by (subst toString16.simps) simp
  qed
qed

lemma padStart_hex: "set (padStart (toString16 n) 2 CHR ''0'') \<subseteq> hexDigits"
proof -
  have "CHR ''0'' \<in> hexDigits"
    by (simp add: hexDigits_def)
  with toString16_hex [of n] show ?thesis
    by (auto simp: padStart_def)
qed

lemma js_join_empty: "js_join [] xs = concat xs"
  by (induction "[] :: string" xs rule: js_join.induct) simp_all

lemma hashHex_hex:
  assumes "hashHex d s = Inr h"
  shows "set h \<subseteq> hexDigits"
proof (cases "d (encode s)")
  case None
  with assms show ?thesis
    by (simp add: hashHex_def)
next
  case (Some digestBuf)
  with assms have
    "h = concat (map (\<lambda>b. padStart (toString16 (unat b)) 2 CHR ''0'') digestBuf)"
    by (simp add: hashHex_def js_join_empty)
  with padStart_hex show ?thesis
    by auto
qed

subsection \<open>The loop over the trailing segments\<close>

lemma redactParts_Anonymous:
  "redactParts d Anonymous ps = Inr (replicate (length ps) ''<redacted>'')"
  by (induction ps) simp_all

lemma redactParts_Pseudonymous:
  "\<forall>p\<in>set ps. hashHex d p = Inr (hx p) \<Longrightarrow> redactParts d Pseudonymous ps = Inr (map hx ps)"
  by (induction ps) simp_all

lemma redactParts_rejects:
  "p \<in> set ps \<Longrightarrow> hashHex d p = Inl e \<Longrightarrow> redactParts d Pseudonymous ps = Inl DigestFailure"
proof (induction ps)
  case Nil
  then show ?case by simp
next
  case (Cons q qs)
  show ?case
  proof (cases "hashHex d q")
    case (Inl e')
    then show ?thesis by (cases e') simp
  next
    case (Inr h)
    with Cons have "p \<in> set qs" by auto
    with Cons Inr show ?thesis by simp
  qed
qed

lemma hashStr_split:
  assumes "js_split CHR ''/'' hash = u # rest"
  shows "hashStr d hash a =
           (case redactParts d a (tl rest) of
              Inl e \<Rightarrow> Inl e
            | Inr ps \<Rightarrow>
                Inr (u @ ''/'' @
                     (case rest of
                        [] \<Rightarrow> ''<redacted_screen_name>''
                      | s # _ \<Rightarrow> if s \<in> set knownScreens then s else ''<redacted_screen_name>'') @
                     ''/'' @ js_join ''/'' ps))"
  using assms by (cases rest) (simp_all add: hashStr_def split: sum.splits)

lemma hashHex_constDigest: "hashHex constDigest s = Inr ''0fa0''"
  by (simp add: hashHex_def constDigest_def padStart_def toString16.simps digit16_def)

lemma hashHex_noDigest: "hashHex noDigest s = Inl DigestFailure"
  by (simp add: hashHex_def noDigest_def)

subsection \<open>Redaction of the location\<close>

lemma redacted_Anonymous:
  assumes "js_split CHR ''/'' hash = u # screen # parts"
  shows "getRedactedCurrentLocation d origin hash pathname Anonymous =
           Inr (origin @
                (if startsWith origin ''file://'' then ''/<redacted_file_scheme_url>/'' else pathname) @
                u @ ''/'' @
                (if screen \<in> set knownScreens then screen else ''<redacted_screen_name>'') @
                ''/'' @ js_join ''/'' (replicate (length parts) ''<redacted>''))"
  by (simp add: getRedactedCurrentLocation_def hashStr_split [OF assms] redactParts_Anonymous)

lemma redacted_Pseudonymous:
  assumes "js_split CHR ''/'' hash = u # screen # parts"
    and "\<forall>p\<in>set parts. hashHex d p = Inr (hx p)"
  shows "getRedactedCurrentLocation d origin hash pathname Pseudonymous =
           Inr (origin @
                (if startsWith origin ''file://'' then ''/<redacted_file_scheme_url>/'' else pathname) @
                u @ ''/'' @
                (if screen \<in> set knownScreens then screen else ''<redacted_screen_name>'') @
                ''/'' @ js_join ''/'' (map hx parts))"
  using redactParts_Pseudonymous [OF assms(2)]
  by (simp add: getRedactedCurrentLocation_def hashStr_split [OF assms(1)])

lemma redacted_rejects:
  assumes "js_split CHR ''/'' hash = u # screen # parts"
    and "p \<in> set parts" and "hashHex d p = Inl e"
  shows "getRedactedCurrentLocation d origin hash pathname Pseudonymous = Inl DigestFailure"
  using redactParts_rejects [OF assms(2,3)]
  by (simp add: getRedactedCurrentLocation_def hashStr_split [OF assms(1)])

text \<open>
  Claim C2. Let the fragment split at \<^verbatim>\<open>/\<close> into a leading token, a screen name and
  the trailing segments \<open>parts\<close>. Under the Anonymous tier the call returns the origin,
  the path, the leading token and the screen field followed by one marker
  \<^verbatim>\<open><redacted>\<close> per trailing segment. Under the Pseudonymous tier, if every segment
  has a digest, each segment is replaced by its \<^verbatim>\<open>hashHex\<close>; if the digest of one
  fails, the call returns nothing. Under the Anonymous tier nothing of the value of a
  trailing segment is in the output: a fragment with the same leading token, the same
  screen name and as many trailing segments, whatever their values, gives the same
  output.
\<close>

theorem trailing_segments_redacted:
  assumes "js_split CHR ''/'' hash = u # screen # parts"
  shows "getRedactedCurrentLocation d origin hash pathname Anonymous =
           Inr (origin @
                (if startsWith origin ''file://'' then ''/<redacted_file_scheme_url>/'' else pathname) @
                u @ ''/'' @
                (if screen \<in> set knownScreens then screen else ''<redacted_screen_name>'') @
                ''/'' @ js_join ''/'' (replicate (length parts) ''<redacted>''))
         \<and> ((\<forall>p\<in>set parts. hashHex d p = Inr (hx p)) \<longrightarrow>
              getRedactedCurrentLocation d origin hash pathname Pseudonymous =
                Inr (origin @
                     (if startsWith origin ''file://'' then ''/<redacted_file_scheme_url>/''
                      else pathname) @
                     u @ ''/'' @
                     (if screen \<in> set knownScreens then screen else ''<redacted_screen_name>'') @
                     ''/'' @ js_join ''/'' (map hx parts)))
         \<and> ((\<exists>p\<in>set parts. hashHex d p = Inl DigestFailure) \<longrightarrow>
              getRedactedCurrentLocation d origin hash pathname Pseudonymous = Inl DigestFailure)
         \<and> (\<forall>hash' parts'.
              js_split CHR ''/'' hash' = u # screen # parts' \<and> length parts' = length parts \<longrightarrow>
              getRedactedCurrentLocation d origin hash' pathname Anonymous =
                getRedactedCurrentLocation d origin hash pathname Anonymous)"
proof (intro conjI impI allI)
  show "getRedactedCurrentLocation d origin hash pathname Anonymous =
           Inr (origin @
                (if startsWith origin ''file://'' then ''/<redacted_file_scheme_url>/'' else pathname) @
                u @ ''/'' @
                (if screen \<in> set knownScreens then screen else ''<redacted_screen_name>'') @
                ''/'' @ js_join ''/'' (replicate (length parts) ''<redacted>''))"
    by (rule redacted_Anonymous [OF assms])
next
  assume "\<forall>p\<in>set parts. hashHex d p = Inr (hx p)"
  then show "getRedactedCurrentLocation d origin hash pathname Pseudonymous =
                Inr (origin @
                     (if startsWith origin ''file://'' then ''/<redacted_file_scheme_url>/''
                      else pathname) @
                     u @ ''/'' @
                     (if screen \<in> set knownScreens then screen else ''<redacted_screen_name>'') @
                     ''/'' @ js_join ''/'' (map hx parts))"
    by (rule redacted_Pseudonymous [OF assms])
next
  assume "\<exists>p\<in>set parts. hashHex d p = Inl DigestFailure"
  then obtain p where "p \<in> set parts" "hashHex d p = Inl DigestFailure"
    by blast
  then show "getRedactedCurrentLocation d origin hash pathname Pseudonymous = Inl DigestFailure"
    by (rule redacted_rejects [OF assms])
next
  fix hash' parts'
  assume "js_split CHR ''/'' hash' = u # screen # parts' \<and> length parts' = length parts"
  then show "getRedactedCurrentLocation d origin hash' pathname Anonymous =
               getRedactedCurrentLocation d origin hash pathname Anonymous"
    by (simp add: redacted_Anonymous [OF assms] redacted_Anonymous [of hash' u screen parts'])
qed

theorem trailing_segments_redacted_witness:
  "getRedactedCurrentLocation constDigest ''https://app.element.io'' ''#/room/!abc/$ev'' ''/''
     Anonymous =
     Inr ''https://app.element.io/#/room/<redacted>/<redacted>''
   \<and> getRedactedCurrentLocation constDigest ''https://app.element.io'' ''#/room/!abc/$ev'' ''/''
       Pseudonymous =
     Inr ''https://app.element.io/#/room/0fa0/0fa0''"
proof -
  have h: "js_split CHR ''/'' ''#/room/!abc/$ev'' = ''#'' # ''room'' # [''!abc'', ''$ev'']"
    by simp
  have k: "\<forall>p\<in>set [''!abc'', ''$ev'']. hashHex constDigest p = Inr ((\<lambda>_. ''0fa0'') p)"
    by (simp add: hashHex_constDigest)
  from trailing_segments_redacted
         [OF h, of constDigest "''https://app.element.io''" "''/''" "\<lambda>_. ''0fa0''"] k
  show ?thesis
    by (simp add: startsWith_def knownScreens_def)
qed

text \<open>
  Claim C7. Whatever the tier: the call returns a location whenever the tier is Anonymous
  or every trailing segment has a digest; and in a location it returns, behind the origin
  and the path, the fragment split at \<^verbatim>\<open>/\<close> has the leading token of the input
  first and then the screen field, which is the screen name of the input when that is a
  known screen and \<^verbatim>\<open><redacted_screen_name>\<close> when it is not (or when the input has
  none).
\<close>

theorem screen_field_known_or_placeholder:
  assumes "js_split CHR ''/'' hash = u # rest"
  shows "(a = Anonymous \<or> (\<forall>p\<in>set (tl rest). \<exists>h. hashHex d p = Inr h) \<longrightarrow>
            (\<exists>out. getRedactedCurrentLocation d origin hash pathname a = Inr out))
         \<and> (\<forall>out. getRedactedCurrentLocation d origin hash pathname a = Inr out \<longrightarrow>
              (\<exists>hs ps.
                 out = origin @
                       (if startsWith origin ''file://'' then ''/<redacted_file_scheme_url>/''
                        else pathname) @ hs
                 \<and> js_split CHR ''/'' hs =
                     u # (case rest of
                            [] \<Rightarrow> ''<redacted_screen_name>''
                          | s # _ \<Rightarrow>
                              if s \<in> set knownScreens then s else ''<redacted_screen_name>'') # ps))"
proof (intro conjI impI allI)
  assume "a = Anonymous \<or> (\<forall>p\<in>set (tl rest). \<exists>h. hashHex d p = Inr h)"
  then have "\<exists>ps. redactParts d a (tl rest) = Inr ps"
  proof
    assume "a = Anonymous"
    then show ?thesis by (simp add: redactParts_Anonymous)
  next
    assume "\<forall>p\<in>set (tl rest). \<exists>h. hashHex d p = Inr h"
    then have "\<forall>p\<in>set (tl rest). hashHex d p = Inr (projr (hashHex d p))"
      by auto
    then have "redactParts d Pseudonymous (tl rest) =
                 Inr (map (\<lambda>p. projr (hashHex d p)) (tl rest))"
      by (rule redactParts_Pseudonymous)
    then show ?thesis
      by (cases a) (simp_all add: redactParts_Anonymous)
  qed
  then show "\<exists>out. getRedactedCurrentLocation d origin hash pathname a = Inr out"
    by (auto simp: getRedactedCurrentLocation_def hashStr_split [OF assms])
next
  fix out
  assume out: "getRedactedCurrentLocation d origin hash pathname a = Inr out"
  define S where "S = (case rest of
                            [] \<Rightarrow> ''<redacted_screen_name>''
                          | s # _ \<Rightarrow>
                              if s \<in> set knownScreens then s else ''<redacted_screen_name>'')"
  have u: "CHR ''/'' \<notin> set u"
    using js_split_fields [of u "CHR ''/''" hash] assms by simp
  have S: "CHR ''/'' \<notin> set S"
  proof (cases rest)
    case Nil
    then show ?thesis by (simp add: S_def)
  next
    case (Cons s ss)
    then have "CHR ''/'' \<notin> set s"
      using js_split_fields [of s "CHR ''/''" hash] assms by simp
    with Cons show ?thesis by (simp add: S_def)
  qed
  from out obtain ps where
    hs: "hashStr d hash a = Inr (u @ ''/'' @ S @ ''/'' @ js_join ''/'' ps)"
    by (auto simp: getRedactedCurrentLocation_def hashStr_split [OF assms] S_def
             split: sum.splits)
  have "js_split CHR ''/'' (u @ ''/'' @ S @ ''/'' @ js_join ''/'' ps) =
          u # S # js_split CHR ''/'' (js_join ''/'' ps)"
    using u S by (simp add: js_split_append)
  with out hs show "\<exists>hs ps.
                 out = origin @
                       (if startsWith origin ''file://'' then ''/<redacted_file_scheme_url>/''
                        else pathname) @ hs
                 \<and> js_split CHR ''/'' hs =
                     u # (case rest of
                            [] \<Rightarrow> ''<redacted_screen_name>''
                          | s # _ \<Rightarrow>
                              if s \<in> set knownScreens then s else ''<redacted_screen_name>'') # ps"
    unfolding S_def [symmetric]
    by (auto simp: getRedactedCurrentLocation_def)
qed

theorem screen_field_known_or_placeholder_witness:
  "(\<exists>out. getRedactedCurrentLocation constDigest ''https://app.element.io''
             ''#/my_secret_screen/!abc'' ''/'' Pseudonymous = Inr out)
   \<and> (\<exists>hs ps. ''https://app.element.io/#/<redacted_screen_name>/0fa0'' =
                 ''https://app.element.io'' @ ''/'' @ hs
             \<and> js_split CHR ''/'' hs = ''#'' # ''<redacted_screen_name>'' # ps)"
proof -
  have h: "js_split CHR ''/'' ''#/my_secret_screen/!abc'' = ''#'' # [''my_secret_screen'', ''!abc'']"
    by simp
  have k: "getRedactedCurrentLocation constDigest ''https://app.element.io''
             ''#/my_secret_screen/!abc'' ''/'' Pseudonymous =
           Inr ''https://app.element.io/#/<redacted_screen_name>/0fa0''"
    by (simp add: getRedactedCurrentLocation_def hashStr_def startsWith_def knownScreens_def
          hashHex_constDigest)
  from screen_field_known_or_placeholder
         [OF h, of Pseudonymous constDigest "''https://app.element.io''" "''/''"] k
  show ?thesis
    by (simp add: startsWith_def knownScreens_def hashHex_constDigest)
qed

text \<open>
  Claim C8. When the origin starts with \<^verbatim>\<open>file://\<close>, the result is the origin, the
  placeholder \<^verbatim>\<open>/<redacted_file_scheme_url>/\<close> and the redacted fragment, under either
  tier; the path name that was passed has no part in it.
\<close>

theorem file_origin_path_is_placeholder:
  "startsWith origin ''file://'' \<Longrightarrow>
     getRedactedCurrentLocation d origin hash pathname a =
       (case hashStr d hash a of
          Inl e \<Rightarrow> Inl e
        | Inr hs \<Rightarrow> Inr (origin @ ''/<redacted_file_scheme_url>/'' @ hs))
     \<and> getRedactedCurrentLocation d origin hash pathname a =
         getRedactedCurrentLocation d origin hash pathname' a"
  by (simp add: getRedactedCurrentLocation_def)

theorem file_origin_path_is_placeholder_witness:
  "getRedactedCurrentLocation noDigest ''file://'' ''#/room/!abc'' ''/home/alice/index.html''
     Anonymous =
     Inr ''file:///<redacted_file_scheme_url>/#/room/<redacted>''"
proof -
  have h: "startsWith ''file://'' ''file://''"
    by (simp add: startsWith_def)
  have "hashStr noDigest ''#/room/!abc'' Anonymous = Inr ''#/room/<redacted>''"
    by (simp add: hashStr_def knownScreens_def)
  with file_origin_path_is_placeholder
         [OF h, of noDigest "''#/room/!abc''" "''/home/alice/index.html''" Anonymous]
  show ?thesis by simp
qed

subsection \<open>The sanitize hook\<close>

text \<open>
  Claim C10. \<^verbatim>\<open>sanitizeProperties\<close> leaves every key other than the six named ones as it
  was; it sets \<^verbatim>\<open>$current_url\<close> to the cached redacted location (\<^verbatim>\<open>null\<close> when the cache
  is empty); and each of the five referrer and device keys is \<^verbatim>\<open>null\<close> when
  \<^verbatim>\<open>onlyTrackAnonymousEvents\<close> is set and is as it was when it is not.
\<close>

theorem sanitizeProperties_frame:
  "(\<forall>k. k \<notin> {''$current_url'', ''$referrer'', ''$referring_domain'', ''$initial_referrer'',
              ''$initial_referring_domain'', ''$device_id''} \<longrightarrow>
         sanitizeProperties this p u k = p k)
   \<and> sanitizeProperties this p u ''$current_url'' =
       Some (case redactedCurrentLocation this of None \<Rightarrow> JNull | Some l \<Rightarrow> JString l)
   \<and> (\<forall>k \<in> {''$referrer'', ''$referring_domain'', ''$initial_referrer'',
              ''$initial_referring_domain'', ''$device_id''}.
         sanitizeProperties this p u k = (if onlyTrackAnonymousEvents this then Some JNull else p k))"
  by (simp add: sanitizeProperties_def)

theorem sanitizeProperties_frame_witness:
  "sanitizeProperties
     \<lparr>onlyTrackAnonymousEvents = True, initialised = True,
      redactedCurrentLocation = Some ''https://app.element.io/#/room/<redacted>''\<rparr>
     [''$referrer'' \<mapsto> JString ''https://example.org/'', ''$lib'' \<mapsto> JString ''web'']
     ''$pageview'' ''$lib'' = Some (JString ''web'')
   \<and> sanitizeProperties
     \<lparr>onlyTrackAnonymousEvents = True, initialised = True,
      redactedCurrentLocation = Some ''https://app.element.io/#/room/<redacted>''\<rparr>
     [''$referrer'' \<mapsto> JString ''https://example.org/'', ''$lib'' \<mapsto> JString ''web'']
     ''$pageview'' ''$current_url'' = Some (JString ''https://app.element.io/#/room/<redacted>'')
   \<and> sanitizeProperties
     \<lparr>onlyTrackAnonymousEvents = True, initialised = True,
      redactedCurrentLocation = Some ''https://app.element.io/#/room/<redacted>''\<rparr>
     [''$referrer'' \<mapsto> JString ''https://example.org/'', ''$lib'' \<mapsto> JString ''web'']
     ''$pageview'' ''$referrer'' = Some JNull"
  using sanitizeProperties_frame
          [of "\<lparr>onlyTrackAnonymousEvents = True, initialised = True,
                redactedCurrentLocation = Some ''https://app.element.io/#/room/<redacted>''\<rparr>"
              "[''$referrer'' \<mapsto> JString ''https://example.org/'', ''$lib'' \<mapsto> JString ''web'']"
              "''$pageview''"]
  by simp

subsection \<open>Steps of the pipeline\<close>

lemmas step_Resume = step.simps(2)

declare step.simps(2) [simp del]

lemma wellformed_initial: "wellformed initial"
  by (simp add: wellformed_def initial_def)

lemma wellformed_step: "wellformed c \<Longrightarrow> wellformed (step d w a c)"
proof (cases a)
  case (Call m)
  assume "wellformed c"
  then show ?thesis
    unfolding Call
    by (cases m)
       (auto simp: wellformed_def init_def identifyUser_def setOnlyTrackAnonymousEvents_def
          trackPseudonymousEvent_def trackAnonymousEvent_def trackRoomEvent_def capture_def
          updateRedactedCurrentLocation_def suspend_def Let_def
          split: option.splits)
next
  case (Resume tid)
  assume "wellformed c"
  show ?thesis
  proof (cases "map_of (suspended c) tid")
    case None
    with \<open>wellformed c\<close> Resume show ?thesis by (simp add: step_Resume)
  next
    case (Some t)
    then have "(tid, t) \<in> set (suspended c)" by (rule map_of_SomeD)
    with \<open>wellformed c\<close> have "tid < nextId c" by (auto simp: wellformed_def)
    with \<open>wellformed c\<close> Some Resume show ?thesis
      by (cases "(d, w, tid, t, c\<lparr>suspended := filter (\<lambda>(i, _). i \<noteq> tid) (suspended c)\<rparr>)" rule: resume.cases)
         (auto simp: step_Resume wellformed_def suspend_def reject_def trackPseudonymousEvent_def
            capture_def updateRedactedCurrentLocation_def Let_def)
  qed
qed

lemma wellformed_run: "wellformed c \<Longrightarrow> wellformed (run d acts c)"
  by (induction acts arbitrary: c) (auto simp: wellformed_step)

text \<open>Resuming a method that was suspended under a number no other one carries.\<close>

lemma step_Resume_suspended:
  assumes "tid \<notin> fst ` set (suspended c)"
  shows "step d w (Resume tid) (suspend tid t c) = resume d w tid t c"
proof -
  from assms have "map_of (suspended c) tid = None"
    by (simp add: map_of_eq_None_iff)
  moreover from assms have "filter (\<lambda>(i, _). i \<noteq> tid) (suspended c) = suspended c"
    by (force simp: filter_id_conv)
  ultimately show ?thesis
    by (simp add: step_Resume suspend_def map_add_def)
qed

lemma step_Resume_absent:
  assumes "tid \<notin> fst ` set (suspended c)"
  shows "step d w (Resume tid) c = c"
proof -
  from assms have "map_of (suspended c) tid = None"
    by (simp add: map_of_eq_None_iff)
  then show ?thesis by (simp add: step_Resume)
qed

lemma wellformed_fresh: "wellformed c \<Longrightarrow> nextId c \<notin> fst ` set (suspended c)"
  by (force simp: wellformed_def)

lemma awaited_unfold:
  "awaited d w m c =
     step d w (Resume (nextId c)) (step d w (Resume (nextId c))
       (step d w (Resume (nextId c)) (step d w (Call m) c)))"
  by (simp add: awaited_def)

lemma suspended_suspend [simp]: "suspended (suspend tid t c) = suspended c @ [(tid, t)]"
  by (simp add: suspend_def)

lemma suspended_reject [simp]: "suspended (reject tid r c) = suspended c"
  by (simp add: reject_def)

lemma awaited_IdentifyUser:
  assumes "wellformed c"
  shows "awaited d w (IdentifyUser userId) c =
           (if onlyTrackAnonymousEvents (analytics c) then c\<lparr>nextId := Suc (nextId c)\<rparr>
            else case hashHex d userId of
                   Inl e \<Rightarrow> c\<lparr>nextId := Suc (nextId c),
                               rejections := rejections c @ [(nextId c, ToCaller e)]\<rparr>
                 | Inr h \<Rightarrow> c\<lparr>nextId := Suc (nextId c),
                               posthog := posthog c @ [PosthogIdentify h]\<rparr>)"
proof -
  note f = wellformed_fresh [OF assms]
  show ?thesis
  proof (cases "onlyTrackAnonymousEvents (analytics c)")
    case True
    with f show ?thesis
      unfolding awaited_unfold
      by (simp add: identifyUser_def step_Resume_absent)
  next
    case False
    show ?thesis
    proof (cases "hashHex d userId")
      case (Inl e)
      with False f show ?thesis
        unfolding awaited_unfold
        by (simp add: identifyUser_def step_Resume_suspended step_Resume_absent reject_def
             )
    next
      case (Inr h)
      with False f show ?thesis
        unfolding awaited_unfold
        by (simp add: identifyUser_def step_Resume_suspended step_Resume_absent
             )
    qed
  qed
qed


text \<open>\<^verbatim>\<open>capture\<close> and the two resumptions that end it.\<close>

lemma capture_resumed:
  assumes "tid \<notin> fst ` set (suspended c)"
  shows "step d w (Resume tid) (step d w (Resume tid) (capture d w tid n p an c)) =
           (if \<not> initialised (analytics c) then c
            else case currentRedaction d w c of
                   Inl e \<Rightarrow> c\<lparr>rejections := rejections c @ [(tid, Unhandled e)]\<rparr>
                 | Inr l \<Rightarrow>
                     c\<lparr>analytics := (analytics c)\<lparr>redactedCurrentLocation := Some l\<rparr>,
                       posthog := posthog c @
                         [PosthogCapture n p ((analytics c)\<lparr>redactedCurrentLocation := Some l\<rparr>)]\<rparr>)"
proof (cases "initialised (analytics c)")
  case False
  with assms show ?thesis
    by (simp add: capture_def step_Resume_absent)
next
  case True
  show ?thesis
  proof (cases "currentRedaction d w c")
    case (Inl e)
    with True assms show ?thesis
      by (simp add: capture_def updateRedactedCurrentLocation_def step_Resume_suspended
            step_Resume_absent reject_def)
  next
    case (Inr l)
    with True assms show ?thesis
      by (simp add: capture_def updateRedactedCurrentLocation_def step_Resume_suspended
           )
  qed
qed

lemma suspended_capture_resumed:
  assumes "tid \<notin> fst ` set (suspended c)"
  shows "suspended (step d w (Resume tid) (step d w (Resume tid) (capture d w tid n p an c))) = suspended c"
  by (simp add: capture_resumed [OF assms] split: sum.splits)

lemma awaited_TrackAnonymousEvent:
  assumes "wellformed c"
  shows "awaited d w (TrackAnonymousEvent n p) c =
           (if \<not> initialised (analytics c) then c\<lparr>nextId := Suc (nextId c)\<rparr>
            else case currentRedaction d w c of
                   Inl e \<Rightarrow> c\<lparr>nextId := Suc (nextId c),
                               rejections := rejections c @ [(nextId c, Unhandled e)]\<rparr>
                 | Inr l \<Rightarrow>
                     c\<lparr>nextId := Suc (nextId c),
                       analytics := (analytics c)\<lparr>redactedCurrentLocation := Some l\<rparr>,
                       posthog := posthog c @
                         [PosthogCapture n p ((analytics c)\<lparr>redactedCurrentLocation := Some l\<rparr>)]\<rparr>)"
proof -
  let ?c = "c\<lparr>nextId := Suc (nextId c)\<rparr>"
  have f: "nextId c \<notin> fst ` set (suspended ?c)"
    using wellformed_fresh [OF assms] by simp
  have "awaited d w (TrackAnonymousEvent n p) c =
          step d w (Resume (nextId c))
            (step d w (Resume (nextId c)) (step d w (Resume (nextId c))
               (capture d w (nextId c) n p (Some Anonymous) ?c)))"
    by (simp add: awaited_unfold trackAnonymousEvent_def)
  also have "\<dots> = step d w (Resume (nextId c))
            (step d w (Resume (nextId c)) (capture d w (nextId c) n p (Some Anonymous) ?c))"
    using f by (simp add: step_Resume_absent suspended_capture_resumed)
  finally show ?thesis
    by (simp add: capture_resumed [OF f] currentRedaction_def split: sum.splits)
qed


lemma awaited_TrackPseudonymousEvent:
  assumes "wellformed c"
  shows "awaited d w (TrackPseudonymousEvent n p) c =
           (if onlyTrackAnonymousEvents (analytics c) \<or> \<not> initialised (analytics c)
            then c\<lparr>nextId := Suc (nextId c)\<rparr>
            else case currentRedaction d w c of
                   Inl e \<Rightarrow> c\<lparr>nextId := Suc (nextId c),
                               rejections := rejections c @ [(nextId c, Unhandled e)]\<rparr>
                 | Inr l \<Rightarrow>
                     c\<lparr>nextId := Suc (nextId c),
                       analytics := (analytics c)\<lparr>redactedCurrentLocation := Some l\<rparr>,
                       posthog := posthog c @
                         [PosthogCapture n p ((analytics c)\<lparr>redactedCurrentLocation := Some l\<rparr>)]\<rparr>)"
proof (cases "onlyTrackAnonymousEvents (analytics c)")
  case True
  with wellformed_fresh [OF assms] show ?thesis
    by (simp add: awaited_unfold trackPseudonymousEvent_def step_Resume_absent)
next
  case False
  let ?c = "c\<lparr>nextId := Suc (nextId c)\<rparr>"
  have f: "nextId c \<notin> fst ` set (suspended ?c)"
    using wellformed_fresh [OF assms] by simp
  have "awaited d w (TrackPseudonymousEvent n p) c =
          step d w (Resume (nextId c))
            (step d w (Resume (nextId c)) (step d w (Resume (nextId c))
               (capture d w (nextId c) n p None ?c)))"
    using False by (simp add: awaited_unfold trackPseudonymousEvent_def)
  also have "\<dots> = step d w (Resume (nextId c))
            (step d w (Resume (nextId c)) (capture d w (nextId c) n p None ?c))"
    using f by (simp add: step_Resume_absent suspended_capture_resumed)
  finally show ?thesis
    using False by (simp add: capture_resumed [OF f] currentRedaction_def split: sum.splits)
qed

lemma awaited_TrackRoomEvent:
  assumes "wellformed c" and "roomId \<noteq> []"
  shows "awaited d w (TrackRoomEvent n roomId p) c =
           (case hashHex d roomId of
              Inl e \<Rightarrow> c\<lparr>nextId := Suc (nextId c),
                          rejections := rejections c @ [(nextId c, ToCaller e)]\<rparr>
            | Inr h \<Rightarrow> awaited d w (TrackPseudonymousEvent n (p(''hashedRoomId'' \<mapsto> JString h))) c)"
proof (cases "hashHex d roomId")
  case (Inl e)
  with wellformed_fresh [OF assms(1)] assms(2) show ?thesis
    by (simp add: awaited_unfold trackRoomEvent_def step_Resume_suspended step_Resume_absent
          reject_def)
next
  case (Inr h)
  let ?c = "c\<lparr>nextId := Suc (nextId c)\<rparr>"
  let ?p = "p(''hashedRoomId'' \<mapsto> JString h)"
  have f: "nextId c \<notin> fst ` set (suspended ?c)"
    using wellformed_fresh [OF assms(1)] by simp
  have "awaited d w (TrackRoomEvent n roomId p) c =
          step d w (Resume (nextId c)) (step d w (Resume (nextId c))
            (trackPseudonymousEvent d w (nextId c) n ?p ?c))"
    using Inr f assms(2) by (simp add: awaited_unfold trackRoomEvent_def step_Resume_suspended)
  also have "\<dots> = awaited d w (TrackPseudonymousEvent n ?p) c"
  proof (cases "onlyTrackAnonymousEvents (analytics c)")
    case True
    with f show ?thesis
      by (simp add: awaited_unfold trackPseudonymousEvent_def step_Resume_absent)
  next
    case False
    with f show ?thesis
      by (simp add: awaited_unfold trackPseudonymousEvent_def step_Resume_absent
            suspended_capture_resumed)
  qed
  finally show ?thesis
    using Inr by simp
qed

lemma awaited_Init_disabled:
  assumes "wellformed c"
    and "navigator_doNotTrack w = Some ''1''"
  shows "awaited d w (Init flag) c =
           c\<lparr>nextId := Suc (nextId c), analytics := (analytics c)\<lparr>initialised := False\<rparr>\<rparr>"
  using wellformed_fresh [OF assms(1)] assms(2)
  by (simp add: awaited_unfold init_def step_Resume_absent)







































subsection \<open>Running the pipeline on the sample inputs\<close>

lemmas run_simps =
  awaited_def step_Resume init_def identifyUser_def setOnlyTrackAnonymousEvents_def
  trackPseudonymousEvent_def trackAnonymousEvent_def trackRoomEvent_def capture_def
  updateRedactedCurrentLocation_def currentRedaction_def suspend_def reject_def initial_def
  elementWeb_def elementWebDoNotTrack_def getRedactedCurrentLocation_def hashStr_def
  startsWith_def knownScreens_def hashHex_constDigest hashHex_noDigest isInitialised_def

lemma wellformed_awaited: "wellformed c \<Longrightarrow> wellformed (awaited d w m c)"
  unfolding awaited_def by (rule wellformed_run)

lemma insecurePage_eq:
  "insecurePage =
     \<lparr>analytics = \<lparr>onlyTrackAnonymousEvents = False, initialised = True,
                    redactedCurrentLocation = Some ''https://app.element.io/#/room/<redacted>''\<rparr>,
      posthog = [PosthogInit ''key''
                   \<lparr>api_host = ''https://posthog.example.org'', autocapture = False,
                    mask_all_text = True, mask_all_element_attributes = True\<rparr>
                   \<lparr>onlyTrackAnonymousEvents = True, initialised = False,
                    redactedCurrentLocation = Some ''https://app.element.io/#/room/<redacted>''\<rparr>],
      suspended = [], nextId = 2, rejections = []\<rparr>"
  by (simp add: insecurePage_def run_simps)

subsection \<open>Identifying the user\<close>

text \<open>
  Claim C6. Under the Anonymous tier (\<^verbatim>\<open>onlyTrackAnonymousEvents\<close> set) a call of
  \<^verbatim>\<open>identifyUser\<close> changes nothing: it ends at once, nothing is left suspended, and the
  sink is not called. Under the Pseudonymous tier, when the digest of the user id is \<open>h\<close>,
  the awaited call leaves the pipeline as it was but for one more call of the sink,
  \<^verbatim>\<open>identify\<close> with \<open>h\<close>; nothing of the call is left that could call the sink
  again. \<open>h\<close> is a string of hex digits, so it is not the user id when that has any
  other character (a Matrix user id has \<^verbatim>\<open>@\<close> and \<^verbatim>\<open>:\<close>).
\<close>

theorem identifyUser_by_tier:
  assumes "wellformed c"
  shows "(onlyTrackAnonymousEvents (analytics c) \<longrightarrow>
            step d w (Call (IdentifyUser userId)) c = c\<lparr>nextId := Suc (nextId c)\<rparr>
            \<and> awaited d w (IdentifyUser userId) c = c\<lparr>nextId := Suc (nextId c)\<rparr>)
         \<and> (\<not> onlyTrackAnonymousEvents (analytics c) \<and> hashHex d userId = Inr h \<longrightarrow>
              awaited d w (IdentifyUser userId) c =
                c\<lparr>nextId := Suc (nextId c), posthog := posthog c @ [PosthogIdentify h]\<rparr>
              \<and> set h \<subseteq> hexDigits
              \<and> ((\<exists>ch\<in>set userId. ch \<notin> hexDigits) \<longrightarrow> h \<noteq> userId))"
proof (intro conjI impI; (elim conjE)?)
  assume "onlyTrackAnonymousEvents (analytics c)"
  then show "step d w (Call (IdentifyUser userId)) c = c\<lparr>nextId := Suc (nextId c)\<rparr>"
    and "awaited d w (IdentifyUser userId) c = c\<lparr>nextId := Suc (nextId c)\<rparr>"
    by (simp_all add: awaited_IdentifyUser [OF assms] identifyUser_def)
next
  assume "\<not> onlyTrackAnonymousEvents (analytics c)" and h: "hashHex d userId = Inr h"
  then show "awaited d w (IdentifyUser userId) c =
               c\<lparr>nextId := Suc (nextId c), posthog := posthog c @ [PosthogIdentify h]\<rparr>"
    by (simp add: awaited_IdentifyUser [OF assms])
  from h show "set h \<subseteq> hexDigits"
    by (rule hashHex_hex)
  then show "h \<noteq> userId" if "\<exists>ch\<in>set userId. ch \<notin> hexDigits"
    using that by auto
qed

theorem identifyUser_by_tier_witness:
  "posthog (awaited constDigest elementWeb (IdentifyUser ''@alice:example.org'')
      (initial\<lparr>analytics := (analytics initial)\<lparr>onlyTrackAnonymousEvents := True\<rparr>\<rparr>)) = []
   \<and> posthog (awaited constDigest elementWeb (IdentifyUser ''@alice:example.org'') initial) =
       [PosthogIdentify ''0fa0'']"
proof -
  have a: "wellformed (initial\<lparr>analytics := (analytics initial)\<lparr>onlyTrackAnonymousEvents := True\<rparr>\<rparr>)"
    by (simp add: wellformed_def initial_def)
  have b: "wellformed initial"
    by (simp add: wellformed_def initial_def)
  from identifyUser_by_tier
         [OF a, where d = constDigest and w = elementWeb and userId = "''@alice:example.org''"]
       identifyUser_by_tier
         [OF b, where d = constDigest and w = elementWeb and userId = "''@alice:example.org''"
            and h = "''0fa0''"]
  show ?thesis
    by (simp add: initial_def hashHex_constDigest)
qed

text \<open>
  Claim C4 fails for \<^verbatim>\<open>identifyUser\<close>. When \<^verbatim>\<open>init\<close> finds the do-not-track signal it
  returns before it stores its argument, so the pipeline stays uninitialised and
  \<^verbatim>\<open>onlyTrackAnonymousEvents\<close> keeps the value it had, \<^verbatim>\<open>false\<close> in a fresh pipeline;
  \<^verbatim>\<open>identifyUser\<close> does not test \<^verbatim>\<open>initialised\<close> as \<^verbatim>\<open>capture\<close> does, and calls the
  sink with the hashed user id.
\<close>

theorem identifyUser_reaches_sink_when_disabled:
  assumes "wellformed c" and "navigator_doNotTrack w = Some ''1''"
    and "\<not> onlyTrackAnonymousEvents (analytics c)" and "hashHex d userId = Inr h"
  shows "\<not> isInitialised (awaited d w (Init flag) c)
         \<and> posthog (awaited d w (IdentifyUser userId) (awaited d w (Init flag) c)) =
             posthog c @ [PosthogIdentify h]"
proof -
  have i: "awaited d w (Init flag) c =
             c\<lparr>nextId := Suc (nextId c), analytics := (analytics c)\<lparr>initialised := False\<rparr>\<rparr>"
    by (rule awaited_Init_disabled [OF assms(1,2)])
  have "wellformed (awaited d w (Init flag) c)"
    by (rule wellformed_awaited [OF assms(1)])
  from awaited_IdentifyUser [OF this] assms(3,4) show ?thesis
    by (simp add: i isInitialised_def)
qed

theorem identifyUser_reaches_sink_when_disabled_witness:
  "\<not> isInitialised (awaited constDigest elementWebDoNotTrack (Init True) initial)
   \<and> posthog (awaited constDigest elementWebDoNotTrack (IdentifyUser ''@alice:example.org'')
        (awaited constDigest elementWebDoNotTrack (Init True) initial)) =
       [PosthogIdentify ''0fa0'']"
proof -
  have d: "navigator_doNotTrack elementWebDoNotTrack = Some ''1''"
    by (simp add: elementWebDoNotTrack_def)
  have a: "\<not> onlyTrackAnonymousEvents (analytics initial)"
    by (simp add: initial_def)
  from identifyUser_reaches_sink_when_disabled
         [OF wellformed_initial d a hashHex_constDigest,
            where userId = "''@alice:example.org''" and flag = True]
  show ?thesis
    by (simp add: initial_def)
qed

subsection \<open>Events declared anonymous\<close>

text \<open>
  Claim C3 fails. \<^verbatim>\<open>capture\<close> hands the class of the event to
  \<^verbatim>\<open>updateRedactedCurrentLocation\<close>, which has no parameter and redacts with the tier
  of the pipeline. In an initialised pipeline that allows pseudonymous tracking, an
  event sent with \<^verbatim>\<open>trackAnonymousEvent\<close> reaches the sink, and the hook gives it a
  \<^verbatim>\<open>$current_url\<close> whose trailing segments are the digests of the segments of the
  location, not the marker.
\<close>

theorem anonymous_event_carries_hashed_location:
  assumes "wellformed c" and "initialised (analytics c)"
    and "\<not> onlyTrackAnonymousEvents (analytics c)"
    and "js_split CHR ''/'' (location_hash (window_location w)) = u # screen # parts"
    and "\<forall>s\<in>set parts. hashHex d s = Inr (hx s)"
  shows "\<exists>this.
           posthog (awaited d w (TrackAnonymousEvent n p) c) = posthog c @ [PosthogCapture n p this]
           \<and> (\<forall>q name.
                sanitizeProperties this q name ''$current_url'' =
                  Some (JString
                    (location_origin (window_location w) @
                     (if startsWith (location_origin (window_location w)) ''file://''
                      then ''/<redacted_file_scheme_url>/''
                      else location_pathname (window_location w)) @
                     u @ ''/'' @
                     (if screen \<in> set knownScreens then screen else ''<redacted_screen_name>'') @
                     ''/'' @ js_join ''/'' (map hx parts))))"
proof -
  let ?l = "location_origin (window_location w) @
              (if startsWith (location_origin (window_location w)) ''file://''
               then ''/<redacted_file_scheme_url>/''
               else location_pathname (window_location w)) @
              u @ ''/'' @
              (if screen \<in> set knownScreens then screen else ''<redacted_screen_name>'') @
              ''/'' @ js_join ''/'' (map hx parts)"
  have "currentRedaction d w c = Inr ?l"
    using assms(3) redacted_Pseudonymous [OF assms(4,5)]
    by (simp add: currentRedaction_def Let_def)
  with awaited_TrackAnonymousEvent [OF assms(1), of d w n p] assms(2)
  have "posthog (awaited d w (TrackAnonymousEvent n p) c) =
          posthog c @ [PosthogCapture n p ((analytics c)\<lparr>redactedCurrentLocation := Some ?l\<rparr>)]"
    by simp
  moreover have "\<forall>q name.
      sanitizeProperties ((analytics c)\<lparr>redactedCurrentLocation := Some ?l\<rparr>) q name
        ''$current_url'' = Some (JString ?l)"
    by (simp add: sanitizeProperties_def Let_def)
  ultimately show ?thesis by blast
qed

theorem anonymous_event_carries_hashed_location_witness:
  "\<exists>this.
     posthog (awaited constDigest elementWeb (TrackAnonymousEvent ''onboarding_login_begin'' Map.empty)
       (awaited constDigest elementWeb (Init False) initial)) =
     posthog (awaited constDigest elementWeb (Init False) initial) @
       [PosthogCapture ''onboarding_login_begin'' Map.empty this]
     \<and> sanitizeProperties this Map.empty ''onboarding_login_begin'' ''$current_url'' =
         Some (JString ''https://app.element.io/#/room/0fa0'')"
proof -
  let ?c = "awaited constDigest elementWeb (Init False) initial"
  have c: "?c = \<lparr>analytics = \<lparr>onlyTrackAnonymousEvents = False, initialised = True,
                   redactedCurrentLocation = Some ''https://app.element.io/#/room/0fa0''\<rparr>,
                 posthog = [PosthogInit ''key''
                    \<lparr>api_host = ''https://posthog.example.org'', autocapture = False,
                     mask_all_text = True, mask_all_element_attributes = True\<rparr>
                    \<lparr>onlyTrackAnonymousEvents = False, initialised = False,
                     redactedCurrentLocation = Some ''https://app.element.io/#/room/0fa0''\<rparr>],
                 suspended = [], nextId = 1, rejections = []\<rparr>"
    by (simp add: run_simps)
  have w: "wellformed ?c"
    by (rule wellformed_awaited [OF wellformed_initial])
  have i: "initialised (analytics ?c)" and a: "\<not> onlyTrackAnonymousEvents (analytics ?c)"
    by (simp_all add: c)
  have s: "js_split CHR ''/'' (location_hash (window_location elementWeb)) =
             ''#'' # ''room'' # [''!abc:example.org'']"
    by (simp add: elementWeb_def)
  have h: "\<forall>s\<in>set [''!abc:example.org'']. hashHex constDigest s = Inr ((\<lambda>_. ''0fa0'') s)"
    by (simp add: hashHex_constDigest)
  from anonymous_event_carries_hashed_location
         [OF w i a s h, where n = "''onboarding_login_begin''" and p = Map.empty]
  obtain this where
    "posthog (awaited constDigest elementWeb (TrackAnonymousEvent ''onboarding_login_begin'' Map.empty) ?c) =
       posthog ?c @ [PosthogCapture ''onboarding_login_begin'' Map.empty this]"
    and "\<forall>q name. sanitizeProperties this q name ''$current_url'' =
           Some (JString ''https://app.element.io/#/room/0fa0'')"
    by (auto simp: elementWeb_def startsWith_def knownScreens_def)
  then show ?thesis by blast
qed

subsection \<open>A digest that fails\<close>

text \<open>
  Claim C5, as amended. When a digest fails during an awaited call, the sink is not
  called; the failure is not caught in the pipeline. \<^verbatim>\<open>identifyUser\<close>, and
  \<^verbatim>\<open>trackRoomEvent\<close> when the digest of the room id fails, reject the promise their
  caller holds. When the digest fails in the redaction of the location, the promise of
  \<^verbatim>\<open>capture\<close> is rejected, which no caller holds: the \<^verbatim>\<open>track\<close> method has returned
  without it.
\<close>

theorem digest_failure_sends_nothing_and_rejects:
  assumes "wellformed c"
  shows "(\<not> onlyTrackAnonymousEvents (analytics c) \<and> hashHex d userId = Inl e \<longrightarrow>
            posthog (awaited d w (IdentifyUser userId) c) = posthog c
            \<and> rejections (awaited d w (IdentifyUser userId) c) =
                rejections c @ [(nextId c, ToCaller e)])
         \<and> (roomId \<noteq> [] \<and> hashHex d roomId = Inl e \<longrightarrow>
              posthog (awaited d w (TrackRoomEvent n roomId p) c) = posthog c
              \<and> rejections (awaited d w (TrackRoomEvent n roomId p) c) =
                  rejections c @ [(nextId c, ToCaller e)])
         \<and> (initialised (analytics c) \<and> currentRedaction d w c = Inl e \<longrightarrow>
              posthog (awaited d w (TrackAnonymousEvent n p) c) = posthog c
              \<and> rejections (awaited d w (TrackAnonymousEvent n p) c) =
                  rejections c @ [(nextId c, Unhandled e)])
         \<and> (initialised (analytics c) \<and> \<not> onlyTrackAnonymousEvents (analytics c)
              \<and> currentRedaction d w c = Inl e \<longrightarrow>
              posthog (awaited d w (TrackPseudonymousEvent n p) c) = posthog c
              \<and> rejections (awaited d w (TrackPseudonymousEvent n p) c) =
                  rejections c @ [(nextId c, Unhandled e)])
         \<and> (initialised (analytics c) \<and> \<not> onlyTrackAnonymousEvents (analytics c)
              \<and> roomId \<noteq> [] \<and> hashHex d roomId = Inr h \<and> currentRedaction d w c = Inl e \<longrightarrow>
              posthog (awaited d w (TrackRoomEvent n roomId p) c) = posthog c
              \<and> rejections (awaited d w (TrackRoomEvent n roomId p) c) =
                  rejections c @ [(nextId c, Unhandled e)])"
proof (intro conjI impI; (elim conjE)?)
  assume "\<not> onlyTrackAnonymousEvents (analytics c)" "hashHex d userId = Inl e"
  then show "posthog (awaited d w (IdentifyUser userId) c) = posthog c"
    and "rejections (awaited d w (IdentifyUser userId) c) = rejections c @ [(nextId c, ToCaller e)]"
    by (simp_all add: awaited_IdentifyUser [OF assms])
next
  assume "roomId \<noteq> []" "hashHex d roomId = Inl e"
  then show "posthog (awaited d w (TrackRoomEvent n roomId p) c) = posthog c"
    and "rejections (awaited d w (TrackRoomEvent n roomId p) c) =
           rejections c @ [(nextId c, ToCaller e)]"
    by (simp_all add: awaited_TrackRoomEvent [OF assms])
next
  assume "initialised (analytics c)" "currentRedaction d w c = Inl e"
  then show "posthog (awaited d w (TrackAnonymousEvent n p) c) = posthog c"
    and "rejections (awaited d w (TrackAnonymousEvent n p) c) =
           rejections c @ [(nextId c, Unhandled e)]"
    by (simp_all add: awaited_TrackAnonymousEvent [OF assms])
next
  assume "initialised (analytics c)" "\<not> onlyTrackAnonymousEvents (analytics c)"
    "currentRedaction d w c = Inl e"
  then show "posthog (awaited d w (TrackPseudonymousEvent n p) c) = posthog c"
    and "rejections (awaited d w (TrackPseudonymousEvent n p) c) =
           rejections c @ [(nextId c, Unhandled e)]"
    by (simp_all add: awaited_TrackPseudonymousEvent [OF assms])
next
  assume "initialised (analytics c)" "\<not> onlyTrackAnonymousEvents (analytics c)"
    "roomId \<noteq> []" "hashHex d roomId = Inr h" "currentRedaction d w c = Inl e"
  then show "posthog (awaited d w (TrackRoomEvent n roomId p) c) = posthog c"
    and "rejections (awaited d w (TrackRoomEvent n roomId p) c) =
           rejections c @ [(nextId c, Unhandled e)]"
    by (simp_all add: awaited_TrackRoomEvent [OF assms] awaited_TrackPseudonymousEvent [OF assms])
qed

theorem digest_failure_sends_nothing_and_rejects_witness:
  "posthog (awaited noDigest elementWeb (IdentifyUser ''@alice:example.org'') insecurePage) =
     posthog insecurePage
   \<and> posthog (awaited noDigest elementWeb (TrackRoomEvent ''view_room'' ''!abc:example.org'' Map.empty)
        insecurePage) = posthog insecurePage
   \<and> posthog (awaited noDigest elementWeb (TrackAnonymousEvent ''onboarding_login_begin'' Map.empty)
        insecurePage) = posthog insecurePage
   \<and> rejections (awaited noDigest elementWeb
        (TrackAnonymousEvent ''onboarding_login_begin'' Map.empty) insecurePage) =
       [(2, Unhandled DigestFailure)]
   \<and> rejections (awaited noDigest elementWeb
        (TrackPseudonymousEvent ''view_room'' Map.empty) insecurePage) =
       [(2, Unhandled DigestFailure)]"
proof -
  have w: "wellformed insecurePage"
    unfolding insecurePage_def by (rule wellformed_run [OF wellformed_initial])
  have r: "currentRedaction noDigest elementWeb insecurePage = Inl DigestFailure"
    by (simp add: insecurePage_eq run_simps)
  from digest_failure_sends_nothing_and_rejects
         [OF w, where d = noDigest and w = elementWeb and e = DigestFailure
            and userId = "''@alice:example.org''" and roomId = "''!abc:example.org''"
            and n = "''view_room''" and p = Map.empty]
       digest_failure_sends_nothing_and_rejects
         [OF w, where d = noDigest and w = elementWeb and e = DigestFailure
            and n = "''onboarding_login_begin''" and p = Map.empty]
       r
  show ?thesis
    by (simp add: hashHex_noDigest) (simp add: insecurePage_eq)
qed

text \<open>
  Claim C5 as it is written fails in its last part: with no digest available,
  \<^verbatim>\<open>identifyUser\<close> on a fresh pipeline rejects the promise it returned to its caller.
\<close>

theorem identifyUser_rejection_reaches_caller:
  "rejections (awaited noDigest elementWeb (IdentifyUser ''@alice:example.org'') initial) =
     [(0, ToCaller DigestFailure)]"
  by (simp add: run_simps)

subsection \<open>The do-not-track signal\<close>




subsection \<open>The update of the cache comes before the call of the sink\<close>




end
